theory Spec2Isabelle
  imports Complex_Main "HOL-Library.Multiset"
begin

section \<open>Data model\<close>

text \<open>
  A record delivered by \<open>FastqReader.read()\<close>: the attribute \<open>sequence\<close> is a string and
  the attribute \<open>quality\<close> a list of integer Phred scores. Nothing in the three entry
  points relates the two lengths, so the model does not either.

  Python's unbounded integers that count things are natural numbers, quality scores are
  integers, and every value that Python obtains by the true division \<open>/\<close> is modelled by
  the exact rational quotient: statements about means and percentages below are statements
  about exact quotients, not about their binary floating-point roundings.
\<close>

record fastq_record =
  sequence :: string
  quality :: "int list"

text \<open>The exceptions that the modelled code can raise.\<close>

datatype py_error = ZeroDivisionError | ValueError | KeyError

text \<open>
  Every entry point stops after its loop when no record was read: it reports that the file
  holds no valid sequence (the commands) or that the file is empty (the window) and
  returns, with none of its figures computed. Otherwise it computes and shows them.
\<close>

datatype 'a outcome = NoData | Report 'a

subsection \<open>Python primitives\<close>

text \<open>
  \<open>str.upper()\<close>, on strings of 8-bit characters: the letters of ASCII go to their
  capitals and every other character is kept. (The code only counts \<open>G\<close> and \<open>C\<close> in
  the result, and no character other than \<open>g\<close> and \<open>c\<close> has a capital that is one of
  the two.)
\<close>

definition upper_char :: "char \<Rightarrow> char" where
  "upper_char c =
     (case map_of (zip ''abcdefghijklmnopqrstuvwxyz'' ''ABCDEFGHIJKLMNOPQRSTUVWXYZ'') c of
        None \<Rightarrow> c
      | Some u \<Rightarrow> u)"

definition upper :: "string \<Rightarrow> string" where
  "upper s = map upper_char s"

text \<open>\<open>min(xs)\<close> and \<open>max(xs)\<close>: \<open>ValueError\<close> on an empty argument.\<close>

fun py_min :: "'a::linorder list \<Rightarrow> py_error + 'a" where
  "py_min [] = Inl ValueError"
| "py_min (x # xs) = Inr (fold min xs x)"

fun py_max :: "'a::linorder list \<Rightarrow> py_error + 'a" where
  "py_max [] = Inl ValueError"
| "py_max (x # xs) = Inr (fold max xs x)"

text \<open>True division \<open>a / b\<close>: \<open>ZeroDivisionError\<close> when \<open>b\<close> is zero.\<close>

definition py_truediv :: "rat \<Rightarrow> rat \<Rightarrow> py_error + rat" where
  "py_truediv a b = (if b = 0 then Inl ZeroDivisionError else Inr (a / b))"

text \<open>
  A \<open>dict\<close> keeps its keys in insertion order, so it is an association list with distinct
  keys. \<open>dict_modify k d f\<close> is the idiom
  \<^verbatim>\<open>if k not in m: m[k] = d\<close> followed by \<^verbatim>\<open>m[k] = f(m[k])\<close>
  (equally \<^verbatim>\<open>m[k] = f(m.get(k, d))\<close>): an existing key keeps its place, a new key goes
  to the end.
\<close>

fun dict_modify :: "'k \<Rightarrow> 'v \<Rightarrow> ('v \<Rightarrow> 'v) \<Rightarrow> ('k \<times> 'v) list \<Rightarrow> ('k \<times> 'v) list" where
  "dict_modify k d f [] = [(k, f d)]"
| "dict_modify k d f (p # ps) =
     (if fst p = k then (k, f (snd p)) # ps else p # dict_modify k d f ps)"

text \<open>\<open>enumerate(xs)\<close>.\<close>

definition enumerate_py :: "'a list \<Rightarrow> (nat \<times> 'a) list" where
  "enumerate_py xs = zip [0..<length xs] xs"

text \<open>
  \<open>sorted(xs, key=key, reverse=True)\<close>: the list is reversed, sorted stably in ascending
  order of the key, and reversed again, so the result descends and elements with equal
  keys keep the order they had in \<open>xs\<close>.
\<close>

definition sorted_reverse :: "('a \<Rightarrow> 'k::linorder) \<Rightarrow> 'a list \<Rightarrow> 'a list" where
  "sorted_reverse key xs = rev (sort_key key (rev xs))"

section \<open>Basic statistics (\<open>calculate_basic_stats\<close>, \<open>stats\<close>, \<open>stats_command\<close>)\<close>

text \<open>
  The local variables of the aggregation loop of \<open>calculate_basic_stats\<close>; the loop of
  \<open>stats_command\<close> in the argparse entry point is the same, statement for statement. The
  progress line printed every 10000 records changes none of them and is left out.
\<close>

record basic_acc =
  total_sequences :: nat
  total_length :: nat
  sequence_lengths :: "nat list"
  gc_count :: nat
  total_bases :: nat

definition basic_init :: basic_acc where
  "basic_init = \<lparr>total_sequences = 0, total_length = 0, sequence_lengths = [],
                  gc_count = 0, total_bases = 0\<rparr>"

definition basic_step :: "basic_acc \<Rightarrow> fastq_record \<Rightarrow> basic_acc" where
  "basic_step acc r =
     (let seq_len = length (sequence r);
          seq_upper = upper (sequence r)
      in \<lparr>total_sequences = total_sequences acc + 1,
          total_length = total_length acc + seq_len,
          sequence_lengths = sequence_lengths acc @ [seq_len],
          gc_count = gc_count acc
                     + (count_list seq_upper (CHR ''G'') + count_list seq_upper (CHR ''C'')),
          total_bases = total_bases acc + seq_len\<rparr>)"

definition calculate_basic_stats :: "fastq_record list \<Rightarrow> basic_acc" where
  "calculate_basic_stats rs = foldl basic_step basic_init rs"

text \<open>
  The length table of the detailed report: occurrences are counted in a \<open>dict\<close>, the items
  are sorted by descending count, and the first \<open>k\<close> (10 in both commands) are printed with
  their share of all sequences.
\<close>

definition length_counts :: "nat list \<Rightarrow> (nat \<times> nat) list" where
  "length_counts lens = foldl (\<lambda>d l. dict_modify l 0 (\<lambda>c. c + 1) d) [] lens"

definition length_distribution :: "nat \<Rightarrow> nat \<Rightarrow> nat list \<Rightarrow> (nat \<times> nat \<times> rat) list" where
  "length_distribution k n lens =
     map (\<lambda>(l, c). (l, c, (of_nat c / of_nat n) * 100))
         (take k (sorted_reverse snd (length_counts lens)))"

record stats_report =
  rep_total_sequences :: nat
  rep_total_length :: nat
  mean_length :: rat
  min_length :: nat
  max_length :: nat
  gc_content :: rat
  length_table :: "(nat \<times> nat \<times> rat) list option"

text \<open>
  \<open>stats\<close> of the click entry point, on the records the reader delivers:
  \<open>stats_summary\<close> is what it computes from the dictionary that \<open>calculate_basic_stats\<close>
  returns. With \<open>detailed = True\<close> it is \<open>stats_command\<close> of the argparse entry point,
  which always prints the length table.
\<close>

definition stats_summary :: "basic_acc \<Rightarrow> bool \<Rightarrow> py_error + stats_report outcome" where
  "stats_summary stats_data detailed =
     (if total_sequences stats_data = 0 then Inr NoData
      else
        case py_truediv (of_nat (total_length stats_data))
                        (of_nat (total_sequences stats_data)) of
          Inl e \<Rightarrow> Inl e
        | Inr mean \<Rightarrow>
        (case py_min (sequence_lengths stats_data) of
          Inl e \<Rightarrow> Inl e
        | Inr mn \<Rightarrow>
        (case py_max (sequence_lengths stats_data) of
          Inl e \<Rightarrow> Inl e
        | Inr mx \<Rightarrow>
            Inr (Report
              \<lparr>rep_total_sequences = total_sequences stats_data,
               rep_total_length = total_length stats_data,
               mean_length = mean,
               min_length = mn,
               max_length = mx,
               gc_content =
                 (if total_bases stats_data > 0
                  then of_nat (gc_count stats_data) / of_nat (total_bases stats_data) * 100
                  else 0),
               length_table =
                 (if detailed
                  then Some (length_distribution 10 (total_sequences stats_data)
                               (sequence_lengths stats_data))
                  else None)\<rparr>))))"

definition stats :: "fastq_record list \<Rightarrow> bool \<Rightarrow> py_error + stats_report outcome" where
  "stats rs detailed = stats_summary (calculate_basic_stats rs) detailed"

section \<open>Quality statistics (\<open>quality\<close>, \<open>quality_command\<close>)\<close>

text \<open>
  The dictionary \<open>seq_quality\<close> built for every record. Its entries are evaluated in the
  order written, so the division for \<open>mean_quality\<close> comes first.
\<close>

record seq_quality =
  sq_mean_quality :: rat
  sq_min_quality :: int
  sq_max_quality :: int
  sq_q20_count :: nat
  sq_q30_count :: nat
  sq_length :: nat

definition seq_quality_of :: "int list \<Rightarrow> py_error + seq_quality" where
  "seq_quality_of qual_scores =
     (case py_truediv (of_int (sum_list qual_scores)) (of_nat (length qual_scores)) of
        Inl e \<Rightarrow> Inl e
      | Inr mean \<Rightarrow>
     (case py_min qual_scores of
        Inl e \<Rightarrow> Inl e
      | Inr mn \<Rightarrow>
     (case py_max qual_scores of
        Inl e \<Rightarrow> Inl e
      | Inr mx \<Rightarrow>
          Inr \<lparr>sq_mean_quality = mean,
               sq_min_quality = mn,
               sq_max_quality = mx,
               sq_q20_count = length (filter (\<lambda>q. q \<ge> 20) qual_scores),
               sq_q30_count = length (filter (\<lambda>q. q \<ge> 30) qual_scores),
               sq_length = length qual_scores\<rparr>)))"

text \<open>
  The loop over the records, on the pair \<open>(total_sequences, quality_stats)\<close>. An exception
  raised for a record leaves the loop and the whole \<open>try\<close> block. (The locals
  \<open>total_sequences\<close> and \<open>total_bases\<close> of this command carry a prime here, the plain names
  being the fields of the basic statistics.)
\<close>

fun quality_loop ::
  "nat \<times> seq_quality list \<Rightarrow> fastq_record list \<Rightarrow> py_error + (nat \<times> seq_quality list)" where
  "quality_loop st [] = Inr st"
| "quality_loop (total_sequences', quality_stats) (r # rs) =
     (case seq_quality_of (quality r) of
        Inl e \<Rightarrow> Inl e
      | Inr sq \<Rightarrow> quality_loop (total_sequences' + 1, quality_stats @ [sq]) rs)"

record quality_report =
  q_total_sequences :: nat
  q_total_bases :: nat
  mean_quality_all :: rat
  min_quality_all :: int
  max_quality_all :: int
  q20_percentage :: rat
  q30_percentage :: rat

text \<open>
  The body of the \<open>try\<close> block of \<open>quality_command\<close> (argparse) and, up to the grade, of
  \<open>quality\<close> (click): the loop, then \<open>quality_summary\<close>, the statements after the loop.
  \<open>Inl e\<close> is the exception that reaches the \<open>except Exception\<close> clause, which prints it
  and ends the command with a failure.
\<close>

definition quality_summary ::
  "py_error + (nat \<times> seq_quality list) \<Rightarrow> py_error + quality_report outcome" where
  "quality_summary loop_result =
     (case loop_result of
        Inl e \<Rightarrow> Inl e
      | Inr (total_sequences', quality_stats) \<Rightarrow>
          if total_sequences' = 0 then Inr NoData
          else
            let total_bases' = sum_list (map sq_length quality_stats);
                total_q20 = sum_list (map sq_q20_count quality_stats);
                total_q30 = sum_list (map sq_q30_count quality_stats)
            in
            (case py_truediv (sum_list (map sq_mean_quality quality_stats))
                             (of_nat total_sequences') of
               Inl e \<Rightarrow> Inl e
             | Inr mean_all \<Rightarrow>
            (case py_min (map sq_min_quality quality_stats) of
               Inl e \<Rightarrow> Inl e
             | Inr min_all \<Rightarrow>
            (case py_max (map sq_max_quality quality_stats) of
               Inl e \<Rightarrow> Inl e
             | Inr max_all \<Rightarrow>
            (case py_truediv (of_nat total_q20) (of_nat total_bases') of
               Inl e \<Rightarrow> Inl e
             | Inr r20 \<Rightarrow>
            (case py_truediv (of_nat total_q30) (of_nat total_bases') of
               Inl e \<Rightarrow> Inl e
             | Inr r30 \<Rightarrow>
                 Inr (Report
                   \<lparr>q_total_sequences = total_sequences',
                    q_total_bases = total_bases',
                    mean_quality_all = mean_all,
                    min_quality_all = min_all,
                    max_quality_all = max_all,
                    q20_percentage = r20 * 100,
                    q30_percentage = r30 * 100\<rparr>)))))))"

definition quality_command :: "fastq_record list \<Rightarrow> py_error + quality_report outcome" where
  "quality_command rs = quality_summary (quality_loop (0, []) rs)"

text \<open>
  The grade of \<open>quality\<close> (click only). The source's labels are the Russian words for
  excellent, good, satisfactory and bad; each comes with the colour it is printed in.
\<close>

datatype grade = Excellent | Good | Acceptable | Poor

definition quality_grade :: "rat \<Rightarrow> rat \<Rightarrow> grade \<times> string" where
  "quality_grade q20_pct q30_pct =
     (if q30_pct \<ge> 80 then (Excellent, ''green'')
      else if q30_pct \<ge> 60 then (Good, ''blue'')
      else if q20_pct \<ge> 80 then (Acceptable, ''yellow'')
      else (Poor, ''red''))"

text \<open>
  \<open>quality\<close> of the click entry point (\<open>quality_click\<close> here, the plain name being the
  field of the record): the statements of \<open>quality_command\<close>, then the grade of the two
  percentages.
\<close>

definition grade_report ::
  "py_error + quality_report outcome
     \<Rightarrow> py_error + (quality_report \<times> grade \<times> string) outcome" where
  "grade_report summary =
     (case summary of
        Inl e \<Rightarrow> Inl e
      | Inr NoData \<Rightarrow> Inr NoData
      | Inr (Report rep) \<Rightarrow>
          Inr (Report (rep, quality_grade (q20_percentage rep) (q30_percentage rep))))"

definition quality_click ::
  "fastq_record list \<Rightarrow> py_error + (quality_report \<times> grade \<times> string) outcome" where
  "quality_click rs = grade_report (quality_command rs)"

section \<open>The window's analysis (\<open>run_analysis\<close>)\<close>

text \<open>
  The inner dictionary \<open>{"A": 0, "T": 0, "G": 0, "C": 0}\<close> of a position: its four keys
  never change, so it is a record of four counters.
\<close>

record base_counts =
  count_A :: nat
  count_T :: nat
  count_G :: nat
  count_C :: nat

definition zero_counts :: base_counts where
  "zero_counts = \<lparr>count_A = 0, count_T = 0, count_G = 0, count_C = 0\<rparr>"

text \<open>\<^verbatim>\<open>if base in "ATGC": counts[base] += 1\<close>, for a single character \<open>base\<close>.\<close>

definition add_base :: "char \<Rightarrow> base_counts \<Rightarrow> base_counts" where
  "add_base base bc =
     (if base \<in> set ''ATGC'' then
        (if base = CHR ''A'' then bc\<lparr>count_A := count_A bc + 1\<rparr>
         else if base = CHR ''T'' then bc\<lparr>count_T := count_T bc + 1\<rparr>
         else if base = CHR ''G'' then bc\<lparr>count_G := count_G bc + 1\<rparr>
         else bc\<lparr>count_C := count_C bc + 1\<rparr>)
      else bc)"

text \<open>\<open>counts[base]\<close> for the keys that \<open>draw_content_plot\<close> looks up.\<close>

definition get_count :: "base_counts \<Rightarrow> char \<Rightarrow> nat" where
  "get_count bc base =
     (if base = CHR ''A'' then count_A bc
      else if base = CHR ''T'' then count_T bc
      else if base = CHR ''G'' then count_G bc
      else count_C bc)"

text \<open>\<open>sum(counts.values())\<close>.\<close>

definition counts_total :: "base_counts \<Rightarrow> nat" where
  "counts_total bc = count_A bc + count_T bc + count_G bc + count_C bc"

record analysis_acc =
  an_sequence_lengths :: "nat list"
  quality_per_position :: "(nat \<times> int list) list"
  base_content_per_position :: "(nat \<times> base_counts) list"
  an_total_sequences :: nat
  an_total_length :: nat

definition analysis_init :: analysis_acc where
  "analysis_init = \<lparr>an_sequence_lengths = [], quality_per_position = [],
                     base_content_per_position = [],
                     an_total_sequences = 0, an_total_length = 0\<rparr>"

text \<open>The two inner loops of the body, over \<open>enumerate(qual)\<close> and \<open>enumerate(seq)\<close>.\<close>

definition add_qualities :: "int list \<Rightarrow> (nat \<times> int list) list \<Rightarrow> (nat \<times> int list) list" where
  "add_qualities qual d = fold (\<lambda>(i, q). dict_modify i [] (\<lambda>l. l @ [q])) (enumerate_py qual) d"

definition add_bases :: "string \<Rightarrow> (nat \<times> base_counts) list \<Rightarrow> (nat \<times> base_counts) list" where
  "add_bases seq d = fold (\<lambda>(i, base). dict_modify i zero_counts (add_base base)) (enumerate_py seq) d"

definition analysis_step :: "analysis_acc \<Rightarrow> fastq_record \<Rightarrow> analysis_acc" where
  "analysis_step acc r =
     (let seq = sequence r;
          qual = quality r;
          seq_len = length seq
      in \<lparr>an_sequence_lengths = an_sequence_lengths acc @ [seq_len],
          quality_per_position = add_qualities qual (quality_per_position acc),
          base_content_per_position = add_bases seq (base_content_per_position acc),
          an_total_sequences = an_total_sequences acc + 1,
          an_total_length = an_total_length acc + seq_len\<rparr>)"

definition analysis_ingest :: "fastq_record list \<Rightarrow> analysis_acc" where
  "analysis_ingest rs = foldl analysis_step analysis_init rs"

text \<open>A comprehension whose element expression may raise.\<close>

fun map_err :: "('a \<Rightarrow> py_error + 'b) \<Rightarrow> 'a list \<Rightarrow> py_error + 'b list" where
  "map_err f [] = Inr []"
| "map_err f (x # xs) =
     (case f x of
        Inl e \<Rightarrow> Inl e
      | Inr y \<Rightarrow> (case map_err f xs of Inl e \<Rightarrow> Inl e | Inr ys \<Rightarrow> Inr (y # ys)))"

definition dict_get :: "('k \<times> 'v) list \<Rightarrow> 'k \<Rightarrow> py_error + 'v" where
  "dict_get d k = (case map_of d k of None \<Rightarrow> Inl KeyError | Some v \<Rightarrow> Inr v)"

text \<open>
  \<open>draw_quality_plot\<close>: the positions and the mean quality at each, which are the data of
  the plotted line; nothing when the dictionary is empty.
\<close>

definition draw_quality_plot ::
  "(nat \<times> int list) list \<Rightarrow> py_error + (nat list \<times> rat list) option" where
  "draw_quality_plot quality_data =
     (if quality_data \<noteq> [] then
        let positions = sort (map fst quality_data) in
        (case map_err (\<lambda>p. case dict_get quality_data p of
                               Inl e \<Rightarrow> Inl e
                             | Inr l \<Rightarrow> py_truediv (of_int (sum_list l)) (of_nat (length l)))
                      positions of
           Inl e \<Rightarrow> Inl e
         | Inr mean_qualities \<Rightarrow> Inr (Some (positions, mean_qualities)))
      else Inr None)"

text \<open>
  \<open>draw_content_plot\<close>: for each of the keys \<open>A\<close>, \<open>T\<close>, \<open>G\<close>, \<open>C\<close> of \<open>colors\<close>, in that
  order, the list \<open>vals\<close> of its share at every position.
\<close>

definition content_share :: "base_counts \<Rightarrow> char \<Rightarrow> rat" where
  "content_share bc base =
     (let total = counts_total bc
      in if total \<noteq> 0 then of_nat (get_count bc base) / of_nat total * 100 else 0)"

definition draw_content_plot ::
  "(nat \<times> base_counts) list \<Rightarrow> py_error + (nat list \<times> (char \<times> rat list) list) option" where
  "draw_content_plot content_data =
     (if content_data \<noteq> [] then
        let positions = sort (map fst content_data) in
        (case map_err (\<lambda>base.
                 case map_err (\<lambda>p. case dict_get content_data p of
                                        Inl e \<Rightarrow> Inl e
                                      | Inr bc \<Rightarrow> Inr (content_share bc base))
                              positions of
                   Inl e \<Rightarrow> Inl e
                 | Inr vals \<Rightarrow> Inr (base, vals))
               ''ATGC'' of
           Inl e \<Rightarrow> Inl e
         | Inr lines \<Rightarrow> Inr (Some (positions, lines)))
      else Inr None)"

record analysis_result =
  res_total_sequences :: nat
  res_total_length :: nat
  res_mean_length :: rat
  res_min_length :: nat
  res_max_length :: nat
  res_quality_plot :: "(nat list \<times> rat list) option"
  res_content_plot :: "(nat list \<times> (char \<times> rat list) list) option"

text \<open>
  The body of the \<open>try\<close> block of \<open>run_analysis\<close>, on the records the reader delivers:
  the summary text's figures and the data of the quality and content plots (the histogram
  of \<open>draw_length_dist\<close> is drawn by the plotting library from \<open>sequence_lengths\<close>).
  \<open>Inl e\<close> is an exception that reaches the \<open>except Exception\<close> clause, which shows it
  in a message box.
\<close>

definition run_analysis :: "fastq_record list \<Rightarrow> py_error + analysis_result outcome" where
  "run_analysis rs =
     (let acc = analysis_ingest rs in
      if an_total_sequences acc = 0 then Inr NoData
      else
        (case py_truediv (of_nat (an_total_length acc)) (of_nat (an_total_sequences acc)) of
           Inl e \<Rightarrow> Inl e
         | Inr mean \<Rightarrow>
        (case py_min (an_sequence_lengths acc) of
           Inl e \<Rightarrow> Inl e
         | Inr mn \<Rightarrow>
        (case py_max (an_sequence_lengths acc) of
           Inl e \<Rightarrow> Inl e
         | Inr mx \<Rightarrow>
        (case draw_quality_plot (quality_per_position acc) of
           Inl e \<Rightarrow> Inl e
         | Inr qplot \<Rightarrow>
        (case draw_content_plot (base_content_per_position acc) of
           Inl e \<Rightarrow> Inl e
         | Inr cplot \<Rightarrow>
             Inr (Report
               \<lparr>res_total_sequences = an_total_sequences acc,
                res_total_length = an_total_length acc,
                res_mean_length = mean,
                res_min_length = mn,
                res_max_length = mx,
                res_quality_plot = qplot,
                res_content_plot = cplot\<rparr>)))))))"

section \<open>Notions used to state the properties\<close>


definition gc_of :: "fastq_record \<Rightarrow> nat" where
  "gc_of r = count_list (upper (sequence r)) (CHR ''G'')
             + count_list (upper (sequence r)) (CHR ''C'')"

definition seq_lens :: "fastq_record list \<Rightarrow> nat list" where
  "seq_lens rs = map (\<lambda>r. length (sequence r)) rs"

text \<open>The entry of \<open>quality_stats\<close> for a record with at least one quality score.\<close>

definition seq_quality_value :: "int list \<Rightarrow> seq_quality" where
  "seq_quality_value qs =
     \<lparr>sq_mean_quality = of_int (sum_list qs) / of_nat (length qs),
      sq_min_quality = Min (set qs),
      sq_max_quality = Max (set qs),
      sq_q20_count = length (filter (\<lambda>q. q \<ge> 20) qs),
      sq_q30_count = length (filter (\<lambda>q. q \<ge> 30) qs),
      sq_length = length qs\<rparr>"

text \<open>The value of \<open>m.get(k, d)\<close>, given the result of the lookup.\<close>

definition or_default :: "'v \<Rightarrow> 'v option \<Rightarrow> 'v" where
  "or_default d x = (case x of None \<Rightarrow> d | Some v \<Rightarrow> v)"

text \<open>
  The quality scores, and the bases, that the records of a stream have at a position, in
  the order of the records; and the number of A, T, G and C among bases.
\<close>

definition scores_at :: "fastq_record list \<Rightarrow> nat \<Rightarrow> int list" where
  "scores_at rs i = map (\<lambda>r. quality r ! i) (filter (\<lambda>r. i < length (quality r)) rs)"

definition bases_at :: "fastq_record list \<Rightarrow> nat \<Rightarrow> string" where
  "bases_at rs i = map (\<lambda>r. sequence r ! i) (filter (\<lambda>r. i < length (sequence r)) rs)"

definition tally :: "string \<Rightarrow> base_counts" where
  "tally bs = \<lparr>count_A = count_list bs (CHR ''A''), count_T = count_list bs (CHR ''T''),
               count_G = count_list bs (CHR ''G''), count_C = count_list bs (CHR ''C'')\<rparr>"

text \<open>The number of quality values held in a per-position dictionary.\<close>

definition stored_values :: "(nat \<times> int list) list \<Rightarrow> nat" where
  "stored_values d = sum_list (map (\<lambda>(p, l). length l) d)"

text \<open>The greatest of a list of lengths (0 for none).\<close>

definition max_len :: "nat list \<Rightarrow> nat" where
  "max_len ls = foldl max 0 ls"

text \<open>The mean quality, and the share of a base, at a position of a stream.\<close>

definition mean_at :: "fastq_record list \<Rightarrow> nat \<Rightarrow> rat" where
  "mean_at rs p = of_int (sum_list (scores_at rs p)) / of_nat (length (scores_at rs p))"

definition share_at :: "fastq_record list \<Rightarrow> char \<Rightarrow> nat \<Rightarrow> rat" where
  "share_at rs base p = content_share (tally (bases_at rs p)) base"

text \<open>The data of the two plots, stated from the stream.\<close>

definition quality_plot_of :: "fastq_record list \<Rightarrow> (nat list \<times> rat list) option" where
  "quality_plot_of rs =
     (let m = max_len (map (\<lambda>r. length (quality r)) rs)
      in if m = 0 then None else Some ([0..<m], map (mean_at rs) [0..<m]))"

definition content_plot_of ::
  "fastq_record list \<Rightarrow> (nat list \<times> (char \<times> rat list) list) option" where
  "content_plot_of rs =
     (let m = max_len (seq_lens rs)
      in if m = 0 then None
         else Some ([0..<m], map (\<lambda>base. (base, map (share_at rs base) [0..<m])) ''ATGC''))"

text \<open>The distinct elements of a list, in the order of their first occurrence.\<close>

definition first_seen :: "'a list \<Rightarrow> 'a list" where
  "first_seen xs = rev (remdups (rev xs))"

text \<open>The lengths in the order of the sorted items of the length table.\<close>

definition ranked_lengths :: "nat list \<Rightarrow> nat list" where
  "ranked_lengths lens = map fst (sorted_reverse snd (length_counts lens))"

section \<open>Properties of the basic statistics\<close>

lemma basic_step_fields:
  "total_sequences (basic_step acc r) = total_sequences acc + 1"
  "total_length (basic_step acc r) = total_length acc + length (sequence r)"
  "sequence_lengths (basic_step acc r) = sequence_lengths acc @ [length (sequence r)]"
  "gc_count (basic_step acc r) = gc_count acc + gc_of r"
  "total_bases (basic_step acc r) = total_bases acc + length (sequence r)"
  by (simp_all add: basic_step_def gc_of_def Let_def)

lemma foldl_basic_step_fields:
  "total_sequences (foldl basic_step acc rs) = total_sequences acc + length rs"
  "total_length (foldl basic_step acc rs) = total_length acc + sum_list (seq_lens rs)"
  "sequence_lengths (foldl basic_step acc rs) = sequence_lengths acc @ seq_lens rs"
  "gc_count (foldl basic_step acc rs) = gc_count acc + sum_list (map gc_of rs)"
  "total_bases (foldl basic_step acc rs) = total_bases acc + sum_list (seq_lens rs)"
  by (induction rs arbitrary: acc) (simp_all add: basic_step_fields seq_lens_def)

lemma calculate_basic_stats_fields:
  "total_sequences (calculate_basic_stats rs) = length rs"
  "total_length (calculate_basic_stats rs) = sum_list (seq_lens rs)"
  "sequence_lengths (calculate_basic_stats rs) = seq_lens rs"
  "gc_count (calculate_basic_stats rs) = sum_list (map gc_of rs)"
  "total_bases (calculate_basic_stats rs) = sum_list (seq_lens rs)"
  by (simp_all add: calculate_basic_stats_def foldl_basic_step_fields basic_init_def)

text \<open>
  Claim C10. After the aggregation loop of \<open>calculate_basic_stats\<close> has consumed any
  finite stream of records, \<open>total_bases\<close> equals \<open>total_length\<close>: both grow by the length
  of the sequence of every record, whatever symbols the sequence holds.
\<close>

theorem total_bases_eq_total_length:
  "total_bases (calculate_basic_stats rs) = total_length (calculate_basic_stats rs)"
  by (simp add: calculate_basic_stats_fields)

section \<open>Properties of the quality statistics\<close>

lemma py_min_nonempty:
  assumes "xs \<noteq> []"
  shows "py_min xs = Inr (Min (set xs))"
proof (cases xs)
  case Nil
  with assms show ?thesis by simp
next
  case (Cons a as)
  show ?thesis using Min.set_eq_fold [of a as] by (simp add: Cons)
qed

lemma py_max_nonempty:
  assumes "xs \<noteq> []"
  shows "py_max xs = Inr (Max (set xs))"
proof (cases xs)
  case Nil
  with assms show ?thesis by simp
next
  case (Cons a as)
  show ?thesis using Max.set_eq_fold [of a as] by (simp add: Cons)
qed

lemma seq_quality_of_eq:
  "seq_quality_of qs = (if qs = [] then Inl ZeroDivisionError else Inr (seq_quality_value qs))"
  by (simp add: seq_quality_of_def py_truediv_def py_min_nonempty py_max_nonempty
      seq_quality_value_def)

lemma quality_loop_eq:
  "quality_loop (n, acc) rs =
     (if \<exists>r\<in>set rs. quality r = [] then Inl ZeroDivisionError
      else Inr (n + length rs, acc @ map (\<lambda>r. seq_quality_value (quality r)) rs))"
  by (induction rs arbitrary: n acc) (simp_all add: seq_quality_of_eq)

lemma q30_count_le_q20_count:
  "length (filter (\<lambda>q. q \<ge> 30) qs) \<le> length (filter (\<lambda>q::int. q \<ge> 20) qs)"
  by (induction qs) auto

lemma q30_le_q20_total:
  "sum_list (map (\<lambda>r. sq_q30_count (seq_quality_value (quality r))) rs)
     \<le> sum_list (map (\<lambda>r. sq_q20_count (seq_quality_value (quality r))) rs)"
  by (rule sum_list_mono) (simp add: seq_quality_value_def q30_count_le_q20_count)

lemma total_quality_length_pos:
  "rs \<noteq> [] \<Longrightarrow> \<forall>r\<in>set rs. quality r \<noteq> [] \<Longrightarrow> 0 < sum_list (map (\<lambda>r. length (quality r)) rs)"
  by (cases rs) auto

lemma quality_command_eq:
  "quality_command rs =
     (if \<exists>r\<in>set rs. quality r = [] then Inl ZeroDivisionError
      else if rs = [] then Inr NoData
      else Inr (Report
        \<lparr>q_total_sequences = length rs,
         q_total_bases = sum_list (map (\<lambda>r. length (quality r)) rs),
         mean_quality_all =
           sum_list (map (\<lambda>r. of_int (sum_list (quality r)) / of_nat (length (quality r))) rs)
             / of_nat (length rs),
         min_quality_all = Min ((\<lambda>r. Min (set (quality r))) ` set rs),
         max_quality_all = Max ((\<lambda>r. Max (set (quality r))) ` set rs),
         q20_percentage =
           of_nat (sum_list (map (\<lambda>r. length (filter (\<lambda>q. q \<ge> 20) (quality r))) rs))
             / of_nat (sum_list (map (\<lambda>r. length (quality r)) rs)) * 100,
         q30_percentage =
           of_nat (sum_list (map (\<lambda>r. length (filter (\<lambda>q. q \<ge> 30) (quality r))) rs))
             / of_nat (sum_list (map (\<lambda>r. length (quality r)) rs)) * 100\<rparr>))"
proof (cases "\<exists>r\<in>set rs. quality r = []")
  case True
  then show ?thesis by (simp add: quality_command_def quality_summary_def quality_loop_eq)
next
  case ok: False
  show ?thesis
  proof (cases "rs = []")
    case True
    then show ?thesis by (simp add: quality_command_def quality_summary_def)
  next
    case False
    with ok have pos: "0 < sum_list (map (\<lambda>r. length (quality r)) rs)"
      by (simp add: total_quality_length_pos)
    from False ok pos show ?thesis
      by (simp add: quality_command_def quality_summary_def quality_loop_eq py_truediv_def py_min_nonempty
          py_max_nonempty Let_def comp_def seq_quality_value_def)
  qed
qed

text \<open>
  Claim C7. The grade is decided by the rules in their order, the first that applies
  winning: excellent exactly when \<open>q30_percentage \<ge> 80\<close>; otherwise good exactly when
  \<open>q30_percentage \<ge> 60\<close>; otherwise acceptable exactly when \<open>q20_percentage \<ge> 80\<close>;
  and poor in every remaining case.
\<close>

theorem quality_grade_first_match:
  "(fst (quality_grade q20 q30) = Excellent \<longleftrightarrow> q30 \<ge> 80)
   \<and> (fst (quality_grade q20 q30) = Good \<longleftrightarrow> \<not> q30 \<ge> 80 \<and> q30 \<ge> 60)
   \<and> (fst (quality_grade q20 q30) = Acceptable
        \<longleftrightarrow> \<not> q30 \<ge> 80 \<and> \<not> q30 \<ge> 60 \<and> q20 \<ge> 80)
   \<and> (fst (quality_grade q20 q30) = Poor
        \<longleftrightarrow> \<not> q30 \<ge> 80 \<and> \<not> q30 \<ge> 60 \<and> \<not> q20 \<ge> 80)"
  by (simp add: quality_grade_def)

theorem quality_grade_first_match_witness:
  "fst (quality_grade 90 85) = Excellent \<and> fst (quality_grade 100 60) = Good
   \<and> fst (quality_grade 80 59) = Acceptable \<and> fst (quality_grade 79 59) = Poor"
  using quality_grade_first_match [of 90 85] quality_grade_first_match [of 100 60]
    quality_grade_first_match [of 80 59] quality_grade_first_match [of 79 59]
  by simp

text \<open>
  Claim C2 says that no division of the quality statistics raises on a zero denominator.
  The per-record mean \<open>sum(qual_scores) / len(qual_scores)\<close> is not guarded: a record
  with no quality score raises \<open>ZeroDivisionError\<close> in both quality commands, alone or
  after well-formed records, and no statistic is produced.
\<close>

theorem quality_empty_read_raises:
  "quality_command [\<lparr>sequence = '''', quality = []\<rparr>] = Inl ZeroDivisionError
   \<and> quality_click [\<lparr>sequence = '''', quality = []\<rparr>] = Inl ZeroDivisionError
   \<and> quality_command [\<lparr>sequence = ''ATGC'', quality = [30, 30, 30, 30]\<rparr>,
                      \<lparr>sequence = '''', quality = []\<rparr>] = Inl ZeroDivisionError"
  by (simp add: quality_command_def quality_summary_def quality_click_def grade_report_def
      seq_quality_of_def py_truediv_def)

text \<open>
  Claim C5. Whenever the quality command computes its percentages (then the stream holds
  at least one base), \<open>q20_percentage\<close> is at least \<open>q30_percentage\<close>: a score of 30 or
  more is also 20 or more, and both counts are divided by the same \<open>total_bases\<close>.
\<close>

theorem q20_percentage_ge_q30_percentage:
  "quality_command rs = Inr (Report rep) \<Longrightarrow> q30_percentage rep \<le> q20_percentage rep"
proof -
  assume a: "quality_command rs = Inr (Report rep)"
  let ?tb = "sum_list (map (\<lambda>r. length (quality r)) rs)"
  let ?t20 = "sum_list (map (\<lambda>r. length (filter (\<lambda>q. q \<ge> 20) (quality r))) rs)"
  let ?t30 = "sum_list (map (\<lambda>r. length (filter (\<lambda>q. q \<ge> 30) (quality r))) rs)"
  from a have q20: "q20_percentage rep = of_nat ?t20 / of_nat ?tb * 100"
    and q30: "q30_percentage rep = of_nat ?t30 / of_nat ?tb * 100"
    by (auto simp: quality_command_eq split: if_splits)
  have "?t30 \<le> ?t20"
    by (rule sum_list_mono) (simp add: q30_count_le_q20_count)
  then have "(of_nat ?t30 :: rat) \<le> of_nat ?t20" by simp
  then have "(of_nat ?t30 :: rat) / of_nat ?tb \<le> of_nat ?t20 / of_nat ?tb"
    by (rule divide_right_mono) simp
  then have "of_nat ?t30 / of_nat ?tb * (100::rat) \<le> of_nat ?t20 / of_nat ?tb * 100"
    by (rule mult_right_mono) simp
  then show ?thesis by (simp only: q20 q30)
qed

theorem q20_percentage_ge_q30_percentage_witness:
  "quality_command [\<lparr>sequence = ''ATGC'', quality = [30, 30, 30, 30]\<rparr>,
                    \<lparr>sequence = ''AT'', quality = [10, 10]\<rparr>,
                    \<lparr>sequence = ''GGCC'', quality = [40, 40, 20, 20]\<rparr>]
     = Inr (Report \<lparr>q_total_sequences = 3, q_total_bases = 10, mean_quality_all = 70 / 3,
                     min_quality_all = 10, max_quality_all = 40,
                     q20_percentage = 80, q30_percentage = 60\<rparr>)
   \<and> (60::rat) \<le> 80"
proof -
  have run: "quality_command [\<lparr>sequence = ''ATGC'', quality = [30, 30, 30, 30]\<rparr>,
                    \<lparr>sequence = ''AT'', quality = [10, 10]\<rparr>,
                    \<lparr>sequence = ''GGCC'', quality = [40, 40, 20, 20]\<rparr>]
     = Inr (Report \<lparr>q_total_sequences = 3, q_total_bases = 10, mean_quality_all = 70 / 3,
                     min_quality_all = 10, max_quality_all = 40,
                     q20_percentage = 80, q30_percentage = 60\<rparr>)"
    by (simp add: quality_command_def quality_summary_def seq_quality_of_def py_truediv_def)
  from q20_percentage_ge_q30_percentage [OF run] run show ?thesis by simp
qed

section \<open>Properties of the \<open>stats\<close> command\<close>

lemma count_two_le_length:
  "a \<noteq> b \<Longrightarrow> count_list xs a + count_list xs b \<le> length xs"
  by (induction xs) auto

lemma gc_of_le_length: "gc_of r \<le> length (sequence r)"
  using count_two_le_length [of "CHR ''G''" "CHR ''C''" "upper (sequence r)"]
  by (simp add: gc_of_def upper_def)

lemma sum_gc_le_sum_lens: "sum_list (map gc_of rs) \<le> sum_list (seq_lens rs)"
  unfolding seq_lens_def by (rule sum_list_mono) (rule gc_of_le_length)

lemma stats_nonempty:
  assumes "rs \<noteq> []"
  shows "stats rs d = Inr (Report
           \<lparr>rep_total_sequences = length rs,
            rep_total_length = sum_list (seq_lens rs),
            mean_length = of_nat (sum_list (seq_lens rs)) / of_nat (length rs),
            min_length = Min (set (seq_lens rs)),
            max_length = Max (set (seq_lens rs)),
            gc_content =
              (if sum_list (seq_lens rs) > 0
               then of_nat (sum_list (map gc_of rs)) / of_nat (sum_list (seq_lens rs)) * 100
               else 0),
            length_table =
              (if d then Some (length_distribution 10 (length rs) (seq_lens rs)) else None)\<rparr>)"
proof -
  from assms have "seq_lens rs \<noteq> []" by (simp add: seq_lens_def)
  with assms show ?thesis
    by (simp add: stats_def stats_summary_def calculate_basic_stats_fields py_truediv_def py_min_nonempty
        py_max_nonempty Let_def)
qed

lemma gc_share_bounds:
  assumes "g \<le> n"
  shows "0 \<le> (if n > 0 then of_nat g / of_nat n * 100 else (0::rat))"
    and "(if n > 0 then of_nat g / of_nat n * 100 else (0::rat)) \<le> 100"
proof -
  show "0 \<le> (if n > 0 then of_nat g / of_nat n * 100 else (0::rat))" by simp
  show "(if n > 0 then of_nat g / of_nat n * 100 else (0::rat)) \<le> 100"
  proof (cases "n > 0")
    case True
    with assms have "(of_nat g :: rat) / of_nat n \<le> 1" by (simp add: divide_le_eq_1)
    then have "(of_nat g :: rat) / of_nat n * 100 \<le> 1 * 100"
      by (rule mult_right_mono) simp
    with True show ?thesis by simp
  next
    case False
    then show ?thesis by simp
  qed
qed

text \<open>
  Claim C6, as the code has it. On an empty stream \<open>stats\<close> stops at its guard
  \<open>total_sequences == 0\<close> and computes no figure. On every other stream it reports:
  \<open>total_length\<close>, the sum of the sequence lengths; \<open>mean_length\<close>, the quotient
  \<open>total_length / total_sequences\<close>; \<open>min_length\<close> and \<open>max_length\<close>, the least and the
  greatest sequence length; \<open>gc_content\<close>, which is \<open>gc_count / total_bases * 100\<close> when
  \<open>total_bases > 0\<close> and 0 otherwise, \<open>gc_count\<close> being the number of G and C of the
  upper-cased sequences; and \<open>gc_content\<close> lies between 0 and 100.
\<close>

theorem stats_figures:
  "stats [] d = Inr NoData
   \<and> (rs \<noteq> [] \<longrightarrow>
        (\<exists>rep. stats rs d = Inr (Report rep)
           \<and> rep_total_sequences rep = length rs
           \<and> rep_total_length rep = sum_list (seq_lens rs)
           \<and> mean_length rep = of_nat (rep_total_length rep) / of_nat (rep_total_sequences rep)
           \<and> min_length rep = Min (set (seq_lens rs))
           \<and> max_length rep = Max (set (seq_lens rs))
           \<and> gc_content rep =
               (if total_bases (calculate_basic_stats rs) > 0
                then of_nat (gc_count (calculate_basic_stats rs))
                       / of_nat (total_bases (calculate_basic_stats rs)) * 100
                else 0)
           \<and> gc_count (calculate_basic_stats rs) = sum_list (map gc_of rs)
           \<and> 0 \<le> gc_content rep \<and> gc_content rep \<le> 100))"
proof (intro conjI impI)
  show "stats [] d = Inr NoData"
    by (simp add: stats_def stats_summary_def calculate_basic_stats_def basic_init_def)
next
  assume ne: "rs \<noteq> []"
  note b = gc_share_bounds [OF sum_gc_le_sum_lens [of rs]]
  show "\<exists>rep. stats rs d = Inr (Report rep)
           \<and> rep_total_sequences rep = length rs
           \<and> rep_total_length rep = sum_list (seq_lens rs)
           \<and> mean_length rep = of_nat (rep_total_length rep) / of_nat (rep_total_sequences rep)
           \<and> min_length rep = Min (set (seq_lens rs))
           \<and> max_length rep = Max (set (seq_lens rs))
           \<and> gc_content rep =
               (if total_bases (calculate_basic_stats rs) > 0
                then of_nat (gc_count (calculate_basic_stats rs))
                       / of_nat (total_bases (calculate_basic_stats rs)) * 100
                else 0)
           \<and> gc_count (calculate_basic_stats rs) = sum_list (map gc_of rs)
           \<and> 0 \<le> gc_content rep \<and> gc_content rep \<le> 100"
    using b by (simp add: stats_nonempty [OF ne] calculate_basic_stats_fields)
qed

theorem stats_figures_witness:
  "[\<lparr>sequence = ''ATGC'', quality = [30, 30, 30, 30]\<rparr>,
    \<lparr>sequence = ''AT'', quality = [10, 10]\<rparr>,
    \<lparr>sequence = ''GGCC'', quality = [40, 40, 20, 20]\<rparr>] \<noteq> []
   \<and> (\<exists>rep. stats [\<lparr>sequence = ''ATGC'', quality = [30, 30, 30, 30]\<rparr>,
                    \<lparr>sequence = ''AT'', quality = [10, 10]\<rparr>,
                    \<lparr>sequence = ''GGCC'', quality = [40, 40, 20, 20]\<rparr>] False = Inr (Report rep)
         \<and> rep_total_sequences rep = 3 \<and> rep_total_length rep = 10
         \<and> mean_length rep = 10 / 3 \<and> min_length rep = 2 \<and> max_length rep = 4
         \<and> gc_content rep = 60)"
  using stats_figures [of False "[\<lparr>sequence = ''ATGC'', quality = [30, 30, 30, 30]\<rparr>,
    \<lparr>sequence = ''AT'', quality = [10, 10]\<rparr>,
    \<lparr>sequence = ''GGCC'', quality = [40, 40, 20, 20]\<rparr>]"]
  by (auto simp: seq_lens_def gc_of_def upper_def upper_char_def calculate_basic_stats_fields)

text \<open>
  Claim C6 as stated gives \<open>mean_length = 0\<close> for a stream without records; the command
  returns before any figure exists.
\<close>

theorem stats_empty_stream_counterexample:
  "stats [] True = Inr NoData \<and> stats [] False = Inr NoData"
  by (simp add: stats_def stats_summary_def calculate_basic_stats_def basic_init_def)

section \<open>Properties of \<open>run_analysis\<close>\<close>

lemma map_of_dict_modify:
  "map_of (dict_modify k d f ps) = (map_of ps)(k \<mapsto> f (or_default d (map_of ps k)))"
  by (induction ps) (auto simp: or_default_def fun_eq_iff)

lemma keys_dict_modify:
  "map fst (dict_modify k d f ps) = (if k \<in> set (map fst ps) then map fst ps else map fst ps @ [k])"
  by (induction ps) auto

lemma enumerate_py_snoc:
  "enumerate_py (xs @ [x]) = enumerate_py xs @ [(length xs, x)]"
  by (simp add: enumerate_py_def)

lemma map_of_add_qualities:
  "map_of (add_qualities qs d) i =
     (if i < length qs then Some (or_default [] (map_of d i) @ [qs ! i]) else map_of d i)"
proof (induction qs arbitrary: i rule: rev_induct)
  case Nil
  show ?case by (simp add: add_qualities_def enumerate_py_def)
next
  case (snoc q qs)
  have step: "add_qualities (qs @ [q]) d
                = dict_modify (length qs) [] (\<lambda>l. l @ [q]) (add_qualities qs d)"
    by (simp add: add_qualities_def enumerate_py_snoc)
  show ?case
    by (simp add: step map_of_dict_modify snoc.IH nth_append less_Suc_eq)
qed

lemma map_of_add_bases:
  "map_of (add_bases s d) i =
     (if i < length s then Some (add_base (s ! i) (or_default zero_counts (map_of d i)))
      else map_of d i)"
proof (induction s arbitrary: i rule: rev_induct)
  case Nil
  show ?case by (simp add: add_bases_def enumerate_py_def)
next
  case (snoc c s)
  have step: "add_bases (s @ [c]) d
                = dict_modify (length s) zero_counts (add_base c) (add_bases s d)"
    by (simp add: add_bases_def enumerate_py_snoc)
  show ?case
    by (simp add: step map_of_dict_modify snoc.IH nth_append less_Suc_eq)
qed

lemma keys_add_qualities:
  "map fst d = [0..<n] \<Longrightarrow> map fst (add_qualities qs d) = [0..<max n (length qs)]"
proof (induction qs rule: rev_induct)
  case Nil
  then show ?case by (simp add: add_qualities_def enumerate_py_def)
next
  case (snoc q qs)
  have step: "add_qualities (qs @ [q]) d
                = dict_modify (length qs) [] (\<lambda>l. l @ [q]) (add_qualities qs d)"
    by (simp add: add_qualities_def enumerate_py_snoc)
  from snoc have ih: "map fst (add_qualities qs d) = [0..<max n (length qs)]" by simp
  show ?case
  proof (cases "length qs < n")
    case True
    then have "max n (length qs) = n" "max n (Suc (length qs)) = n" by simp_all
    with True show ?thesis by (simp add: step keys_dict_modify ih)
  next
    case False
    then have "max n (length qs) = length qs" "max n (Suc (length qs)) = Suc (length qs)"
      by simp_all
    then show ?thesis by (simp add: step keys_dict_modify ih)
  qed
qed

lemma keys_add_bases:
  "map fst d = [0..<n] \<Longrightarrow> map fst (add_bases s d) = [0..<max n (length s)]"
proof (induction s rule: rev_induct)
  case Nil
  then show ?case by (simp add: add_bases_def enumerate_py_def)
next
  case (snoc c s)
  have step: "add_bases (s @ [c]) d
                = dict_modify (length s) zero_counts (add_base c) (add_bases s d)"
    by (simp add: add_bases_def enumerate_py_snoc)
  from snoc have ih: "map fst (add_bases s d) = [0..<max n (length s)]" by simp
  show ?case
  proof (cases "length s < n")
    case True
    then have "max n (length s) = n" "max n (Suc (length s)) = n" by simp_all
    with True show ?thesis by (simp add: step keys_dict_modify ih)
  next
    case False
    then have "max n (length s) = length s" "max n (Suc (length s)) = Suc (length s)"
      by simp_all
    then show ?thesis by (simp add: step keys_dict_modify ih)
  qed
qed

lemma analysis_step_fields:
  "an_sequence_lengths (analysis_step acc r) = an_sequence_lengths acc @ [length (sequence r)]"
  "quality_per_position (analysis_step acc r) = add_qualities (quality r) (quality_per_position acc)"
  "base_content_per_position (analysis_step acc r)
     = add_bases (sequence r) (base_content_per_position acc)"
  "an_total_sequences (analysis_step acc r) = an_total_sequences acc + 1"
  "an_total_length (analysis_step acc r) = an_total_length acc + length (sequence r)"
  by (simp_all add: analysis_step_def Let_def)

lemma foldl_analysis_step_counters:
  "an_sequence_lengths (foldl analysis_step acc rs) = an_sequence_lengths acc @ seq_lens rs"
  "an_total_sequences (foldl analysis_step acc rs) = an_total_sequences acc + length rs"
  "an_total_length (foldl analysis_step acc rs) = an_total_length acc + sum_list (seq_lens rs)"
  by (induction rs arbitrary: acc) (simp_all add: analysis_step_fields seq_lens_def)

lemma scores_at_Cons:
  "scores_at (r # rs) i
     = (if i < length (quality r) then quality r ! i # scores_at rs i else scores_at rs i)"
  by (simp add: scores_at_def)

lemma bases_at_Cons:
  "bases_at (r # rs) i
     = (if i < length (sequence r) then sequence r ! i # bases_at rs i else bases_at rs i)"
  by (simp add: bases_at_def)

lemma foldl_analysis_step_quality:
  "map_of (quality_per_position (foldl analysis_step acc rs)) i =
     (if scores_at rs i = [] then map_of (quality_per_position acc) i
      else Some (or_default [] (map_of (quality_per_position acc) i) @ scores_at rs i))"
proof (induction rs arbitrary: acc)
  case Nil
  show ?case by (simp add: scores_at_def)
next
  case (Cons r rs)
  show ?case
    by (simp add: Cons.IH analysis_step_fields map_of_add_qualities scores_at_Cons or_default_def)
qed

lemma foldl_analysis_step_content:
  "map_of (base_content_per_position (foldl analysis_step acc rs)) i =
     (if bases_at rs i = [] then map_of (base_content_per_position acc) i
      else Some (fold add_base (bases_at rs i)
                   (or_default zero_counts (map_of (base_content_per_position acc) i))))"
proof (induction rs arbitrary: acc)
  case Nil
  show ?case by (simp add: bases_at_def)
next
  case (Cons r rs)
  show ?case
    by (simp add: Cons.IH analysis_step_fields map_of_add_bases bases_at_Cons or_default_def)
qed

lemma fold_add_base:
  "fold add_base bs bc =
     \<lparr>count_A = count_A bc + count_list bs (CHR ''A''),
      count_T = count_T bc + count_list bs (CHR ''T''),
      count_G = count_G bc + count_list bs (CHR ''G''),
      count_C = count_C bc + count_list bs (CHR ''C'')\<rparr>"
  by (induction bs arbitrary: bc) (simp_all add: add_base_def)

lemma fold_add_base_zero: "fold add_base bs zero_counts = tally bs"
  by (simp add: fold_add_base zero_counts_def tally_def)

lemma quality_per_position_ingest:
  "map_of (quality_per_position (analysis_ingest rs)) i =
     (if scores_at rs i = [] then None else Some (scores_at rs i))"
  by (simp add: analysis_ingest_def foldl_analysis_step_quality analysis_init_def or_default_def)

lemma base_content_per_position_ingest:
  "map_of (base_content_per_position (analysis_ingest rs)) i =
     (if bases_at rs i = [] then None else Some (tally (bases_at rs i)))"
  by (simp add: analysis_ingest_def foldl_analysis_step_content analysis_init_def
      or_default_def fold_add_base_zero)

lemma stored_values_dict_modify:
  "stored_values (dict_modify k [] (\<lambda>l. l @ [q]) d) = Suc (stored_values d)"
  by (induction d) (auto simp: stored_values_def)

lemma stored_values_add_qualities:
  "stored_values (add_qualities qs d) = stored_values d + length qs"
proof (induction qs rule: rev_induct)
  case Nil
  show ?case by (simp add: add_qualities_def enumerate_py_def)
next
  case (snoc q qs)
  have step: "add_qualities (qs @ [q]) d
                = dict_modify (length qs) [] (\<lambda>l. l @ [q]) (add_qualities qs d)"
    by (simp add: add_qualities_def enumerate_py_snoc)
  show ?case by (simp add: step stored_values_dict_modify snoc.IH)
qed

lemma stored_values_foldl:
  "stored_values (quality_per_position (foldl analysis_step acc rs))
     = stored_values (quality_per_position acc) + sum_list (map (\<lambda>r. length (quality r)) rs)"
  by (induction rs arbitrary: acc)
     (simp_all add: analysis_step_fields stored_values_add_qualities)

lemma stored_values_ingest:
  "stored_values (quality_per_position (analysis_ingest rs))
     = sum_list (map (\<lambda>r. length (quality r)) rs)"
  by (simp add: analysis_ingest_def stored_values_foldl)
     (simp add: analysis_init_def stored_values_def)

lemma sequence_lengths_ingest: "an_sequence_lengths (analysis_ingest rs) = seq_lens rs"
  by (simp add: analysis_ingest_def foldl_analysis_step_counters)
     (simp add: analysis_init_def)

text \<open>
  Claim C9, as the code has it. \<open>run_analysis\<close> keeps, for every position, the list of
  all raw quality values observed there, one per record that reaches the position and in
  arrival order; the dictionary therefore holds as many values as the stream has quality
  scores, and \<open>sequence_lengths\<close> holds one entry per record.
\<close>

theorem raw_values_accumulate:
  "map_of (quality_per_position (analysis_ingest rs)) i =
     (if scores_at rs i = [] then None else Some (scores_at rs i))
   \<and> stored_values (quality_per_position (analysis_ingest rs))
       = sum_list (map (\<lambda>r. length (quality r)) rs)
   \<and> an_sequence_lengths (analysis_ingest rs) = seq_lens rs"
  by (intro conjI quality_per_position_ingest stored_values_ingest sequence_lengths_ingest)

theorem raw_values_accumulate_witness:
  "map_of (quality_per_position (analysis_ingest
      [\<lparr>sequence = ''A'', quality = [30]\<rparr>, \<lparr>sequence = ''A'', quality = [31]\<rparr>,
       \<lparr>sequence = ''A'', quality = [32]\<rparr>])) 0 = Some [30, 31, 32]
   \<and> map_of (quality_per_position (analysis_ingest
      [\<lparr>sequence = ''A'', quality = [30]\<rparr>, \<lparr>sequence = ''A'', quality = [31]\<rparr>,
       \<lparr>sequence = ''A'', quality = [32]\<rparr>])) 1 = None
   \<and> stored_values (quality_per_position (analysis_ingest
      [\<lparr>sequence = ''A'', quality = [30]\<rparr>, \<lparr>sequence = ''A'', quality = [31]\<rparr>,
       \<lparr>sequence = ''A'', quality = [32]\<rparr>])) = 3"
  using raw_values_accumulate [of "[\<lparr>sequence = ''A'', quality = [30]\<rparr>,
       \<lparr>sequence = ''A'', quality = [31]\<rparr>, \<lparr>sequence = ''A'', quality = [32]\<rparr>]" 0]
    raw_values_accumulate [of "[\<lparr>sequence = ''A'', quality = [30]\<rparr>,
       \<lparr>sequence = ''A'', quality = [31]\<rparr>, \<lparr>sequence = ''A'', quality = [32]\<rparr>]" 1]
  by (simp add: scores_at_def)

text \<open>
  Claim C9 as stated has running (sum, count) pairs and a memory bounded by the distinct
  and the greatest read length. Three records of length 1 leave three raw values at
  position 0 and three entries in \<open>sequence_lengths\<close>.
\<close>

theorem raw_values_counterexample:
  "quality_per_position (analysis_ingest
      [\<lparr>sequence = ''A'', quality = [30]\<rparr>, \<lparr>sequence = ''A'', quality = [31]\<rparr>,
       \<lparr>sequence = ''A'', quality = [32]\<rparr>]) = [(0, [30, 31, 32])]
   \<and> an_sequence_lengths (analysis_ingest
      [\<lparr>sequence = ''A'', quality = [30]\<rparr>, \<lparr>sequence = ''A'', quality = [31]\<rparr>,
       \<lparr>sequence = ''A'', quality = [32]\<rparr>]) = [1, 1, 1]"
  by (simp add: analysis_ingest_def analysis_step_def analysis_init_def add_qualities_def
      enumerate_py_def Let_def)

lemma map_err_ok: "(\<And>x. x \<in> set xs \<Longrightarrow> f x = Inr (g x)) \<Longrightarrow> map_err f xs = Inr (map g xs)"
  by (induction xs) simp_all

lemma less_foldl_max: "p < foldl max (n::nat) ls \<longleftrightarrow> p < n \<or> (\<exists>l\<in>set ls. p < l)"
  by (induction ls arbitrary: n) (auto simp: less_max_iff_disj)

lemma less_max_len: "p < max_len ls \<longleftrightarrow> (\<exists>l\<in>set ls. p < l)"
  by (simp add: max_len_def less_foldl_max)

lemma keys_foldl_quality:
  "map fst (quality_per_position acc) = [0..<n] \<Longrightarrow>
   map fst (quality_per_position (foldl analysis_step acc rs))
     = [0..<foldl max n (map (\<lambda>r. length (quality r)) rs)]"
  by (induction rs arbitrary: acc n) (simp_all add: analysis_step_fields keys_add_qualities)

lemma keys_foldl_content:
  "map fst (base_content_per_position acc) = [0..<n] \<Longrightarrow>
   map fst (base_content_per_position (foldl analysis_step acc rs))
     = [0..<foldl max n (map (\<lambda>r. length (sequence r)) rs)]"
  by (induction rs arbitrary: acc n) (simp_all add: analysis_step_fields keys_add_bases)

lemma quality_keys_ingest:
  "map fst (quality_per_position (analysis_ingest rs))
     = [0..<max_len (map (\<lambda>r. length (quality r)) rs)]"
  unfolding analysis_ingest_def max_len_def
  by (rule keys_foldl_quality) (simp add: analysis_init_def)

lemma content_keys_ingest:
  "map fst (base_content_per_position (analysis_ingest rs)) = [0..<max_len (seq_lens rs)]"
  unfolding analysis_ingest_def max_len_def seq_lens_def
  by (rule keys_foldl_content) (simp add: analysis_init_def)

lemma scores_at_nonempty: "scores_at rs p \<noteq> [] \<longleftrightarrow> (\<exists>r\<in>set rs. p < length (quality r))"
  by (auto simp: scores_at_def filter_empty_conv)

lemma bases_at_nonempty: "bases_at rs p \<noteq> [] \<longleftrightarrow> (\<exists>r\<in>set rs. p < length (sequence r))"
  by (auto simp: bases_at_def filter_empty_conv)

lemma draw_quality_plot_ingest:
  "draw_quality_plot (quality_per_position (analysis_ingest rs)) =
     (let m = max_len (map (\<lambda>r. length (quality r)) rs)
      in if m = 0 then Inr None else Inr (Some ([0..<m], map (mean_at rs) [0..<m])))"
proof -
  let ?d = "quality_per_position (analysis_ingest rs)"
  let ?m = "max_len (map (\<lambda>r. length (quality r)) rs)"
  have keys: "map fst ?d = [0..<?m]" by (rule quality_keys_ingest)
  have empty: "?d = [] \<longleftrightarrow> ?m = 0"
  proof -
    from arg_cong [OF keys, of length] have "length ?d = ?m" by simp
    then show ?thesis by (metis length_0_conv)
  qed
  have each: "(case dict_get ?d p of Inl e \<Rightarrow> Inl e
               | Inr l \<Rightarrow> py_truediv (of_int (sum_list l)) (of_nat (length l)))
              = Inr (mean_at rs p)" if "p \<in> set [0..<?m]" for p
  proof -
    from that have "p < ?m" by simp
    then have "scores_at rs p \<noteq> []"
      by (simp add: less_max_len scores_at_nonempty)
    then show ?thesis
      by (simp add: dict_get_def quality_per_position_ingest py_truediv_def mean_at_def)
  qed
  have all: "map_err (\<lambda>p. case dict_get ?d p of Inl e \<Rightarrow> Inl e
               | Inr l \<Rightarrow> py_truediv (of_int (sum_list l)) (of_nat (length l))) [0..<?m]
             = Inr (map (mean_at rs) [0..<?m])"
    by (rule map_err_ok) (rule each)
  show ?thesis
    unfolding draw_quality_plot_def Let_def keys sort_upt all
    by (simp add: empty)
qed

lemma draw_content_plot_ingest:
  "draw_content_plot (base_content_per_position (analysis_ingest rs)) =
     (let m = max_len (seq_lens rs)
      in if m = 0 then Inr None
         else Inr (Some ([0..<m], map (\<lambda>base. (base, map (share_at rs base) [0..<m])) ''ATGC'')))"
proof -
  let ?d = "base_content_per_position (analysis_ingest rs)"
  let ?m = "max_len (seq_lens rs)"
  have keys: "map fst ?d = [0..<?m]" by (rule content_keys_ingest)
  have empty: "?d = [] \<longleftrightarrow> ?m = 0"
  proof -
    from arg_cong [OF keys, of length] have "length ?d = ?m" by simp
    then show ?thesis by (metis length_0_conv)
  qed
  have each: "(case dict_get ?d p of Inl e \<Rightarrow> Inl e | Inr bc \<Rightarrow> Inr (content_share bc base))
              = Inr (share_at rs base p)" if "p \<in> set [0..<?m]" for p base
  proof -
    from that have "p < ?m" by simp
    then have "bases_at rs p \<noteq> []"
      by (simp add: less_max_len bases_at_nonempty seq_lens_def)
    then show ?thesis
      by (simp add: dict_get_def base_content_per_position_ingest share_at_def)
  qed
  have line: "map_err (\<lambda>p. case dict_get ?d p of Inl e \<Rightarrow> Inl e
                              | Inr bc \<Rightarrow> Inr (content_share bc base)) [0..<?m]
              = Inr (map (share_at rs base) [0..<?m])" for base
    by (rule map_err_ok) (rule each)
  show ?thesis
    unfolding draw_content_plot_def Let_def keys sort_upt line
    by (simp add: empty)
qed

lemma run_analysis_nonempty:
  assumes "rs \<noteq> []"
  shows "run_analysis rs = Inr (Report
           \<lparr>res_total_sequences = length rs,
            res_total_length = sum_list (seq_lens rs),
            res_mean_length = of_nat (sum_list (seq_lens rs)) / of_nat (length rs),
            res_min_length = Min (set (seq_lens rs)),
            res_max_length = Max (set (seq_lens rs)),
            res_quality_plot = quality_plot_of rs,
            res_content_plot = content_plot_of rs\<rparr>)"
proof -
  from assms have ne: "seq_lens rs \<noteq> []" by (simp add: seq_lens_def)
  have counters: "an_total_sequences (analysis_ingest rs) = length rs"
    "an_total_length (analysis_ingest rs) = sum_list (seq_lens rs)"
    by (simp_all add: analysis_ingest_def foldl_analysis_step_counters analysis_init_def)
  from assms ne show ?thesis
    unfolding run_analysis_def Let_def counters sequence_lengths_ingest
      draw_quality_plot_ingest draw_content_plot_ingest
    by (simp add: py_truediv_def py_min_nonempty py_max_nonempty quality_plot_of_def
        content_plot_of_def Let_def)
qed

lemma run_analysis_empty: "run_analysis [] = Inr NoData"
  by (simp add: run_analysis_def analysis_ingest_def analysis_init_def)

lemma counts_total_tally:
  "counts_total (tally bs) = length (filter (\<lambda>b. b \<in> set ''ATGC'') bs)"
  by (induction bs) (auto simp: counts_total_def tally_def)

lemma content_share_sum:
  "content_share bc (CHR ''A'') + content_share bc (CHR ''T'')
     + content_share bc (CHR ''G'') + content_share bc (CHR ''C'')
   = (if counts_total bc \<noteq> 0 then 100 else 0)"
proof (cases "counts_total bc = 0")
  case True
  then show ?thesis by (simp add: content_share_def)
next
  case False
  let ?n = "of_nat (counts_total bc) :: rat"
  from False have nz: "?n \<noteq> 0" by simp
  have "content_share bc (CHR ''A'') + content_share bc (CHR ''T'')
          + content_share bc (CHR ''G'') + content_share bc (CHR ''C'')
        = (of_nat (count_A bc) + of_nat (count_T bc) + of_nat (count_G bc) + of_nat (count_C bc))
            / ?n * 100"
    using False by (simp add: content_share_def get_count_def add_divide_distrib distrib_right)
  also have "of_nat (count_A bc) + of_nat (count_T bc) + of_nat (count_G bc) + of_nat (count_C bc)
               = ?n"
    by (simp add: counts_total_def)
  finally show ?thesis using nz False by simp
qed

lemma observed_base_iff:
  "counts_total (tally (bases_at rs p)) \<noteq> 0
     \<longleftrightarrow> (\<exists>r\<in>set rs. p < length (sequence r) \<and> sequence r ! p \<in> set ''ATGC'')"
  unfolding counts_total_tally length_0_conv filter_empty_conv bases_at_def
  by auto

text \<open>
  Claim C4, as the code has it. At every position of the content plot (each was reached
  by at least one record) the four shares of A, T, G, C add up to exactly 100 when at
  least one base observed there is one of the four symbols, and to 0 when none is: the
  denominator is the number of A, T, G, C observed at the position, other symbols are
  not counted in it.
\<close>

theorem content_shares_sum:
  assumes "run_analysis rs = Inr (Report res)"
    and "res_content_plot res = Some (positions, lines)"
    and "k < length positions"
  shows "map fst lines = ''ATGC''
     \<and> (\<exists>r\<in>set rs. positions ! k < length (sequence r))
     \<and> sum_list (map (\<lambda>(base, vals). vals ! k) lines)
         = (if \<exists>r\<in>set rs. positions ! k < length (sequence r)
                  \<and> sequence r ! (positions ! k) \<in> set ''ATGC''
            then 100 else 0)"
proof -
  let ?m = "max_len (seq_lens rs)"
  from assms(1) have ne: "rs \<noteq> []"
    by (auto simp: run_analysis_empty)
  from assms(1) have "res_content_plot res = content_plot_of rs"
    by (auto simp: run_analysis_nonempty [OF ne])
  with assms(2) have plot: "content_plot_of rs = Some (positions, lines)" by simp
  then have pos: "positions = [0..<?m]"
    and lines: "lines = map (\<lambda>base. (base, map (share_at rs base) [0..<?m])) ''ATGC''"
    by (auto simp: content_plot_of_def Let_def split: if_splits)
  from assms(3) pos have k: "k < ?m" "positions ! k = k" by simp_all
  from k(1) have seen: "\<exists>r\<in>set rs. k < length (sequence r)"
    by (simp add: less_max_len seq_lens_def)
  have total: "sum_list (map (\<lambda>(base, vals). vals ! k) lines)
      = content_share (tally (bases_at rs k)) (CHR ''A'')
        + content_share (tally (bases_at rs k)) (CHR ''T'')
        + content_share (tally (bases_at rs k)) (CHR ''G'')
        + content_share (tally (bases_at rs k)) (CHR ''C'')"
    using k(1) by (simp add: lines share_at_def)
  show ?thesis
    unfolding k(2) total content_share_sum observed_base_iff
    using seen by (simp add: lines)
qed

theorem content_shares_sum_witness:
  "run_analysis [\<lparr>sequence = ''AN'', quality = [30, 30]\<rparr>, \<lparr>sequence = ''NN'', quality = [30, 30]\<rparr>]
     = Inr (Report \<lparr>res_total_sequences = 2, res_total_length = 4, res_mean_length = 2,
                     res_min_length = 2, res_max_length = 2,
                     res_quality_plot = Some ([0, 1], [30, 30]),
                     res_content_plot =
                       Some ([0, 1], [(CHR ''A'', [100, 0]), (CHR ''T'', [0, 0]),
                                      (CHR ''G'', [0, 0]), (CHR ''C'', [0, 0])])\<rparr>)
   \<and> sum_list (map (\<lambda>(base, vals). vals ! 0)
         [(CHR ''A'', [100, 0]), (CHR ''T'', [0, 0]), (CHR ''G'', [0, 0]), (CHR ''C'', [0::rat, 0])])
       = 100
   \<and> sum_list (map (\<lambda>(base, vals). vals ! 1)
         [(CHR ''A'', [100, 0]), (CHR ''T'', [0, 0]), (CHR ''G'', [0, 0]), (CHR ''C'', [0::rat, 0])])
       = 0"
proof -
  let ?rs = "[\<lparr>sequence = ''AN'', quality = [30, 30]\<rparr>, \<lparr>sequence = ''NN'', quality = [30, 30]\<rparr>]"
  let ?lines = "[(CHR ''A'', [100, 0]), (CHR ''T'', [0, 0]), (CHR ''G'', [0, 0]),
                 (CHR ''C'', [0::rat, 0])]"
  let ?res = "\<lparr>res_total_sequences = 2, res_total_length = 4, res_mean_length = 2,
                     res_min_length = 2, res_max_length = 2,
                     res_quality_plot = Some ([0, 1], [30, 30]),
                     res_content_plot = Some ([0, 1], ?lines)\<rparr>"
  have run: "run_analysis ?rs = Inr (Report ?res)"
    by (simp add: run_analysis_def analysis_ingest_def analysis_step_def analysis_init_def
        Let_def py_truediv_def add_qualities_def add_bases_def enumerate_py_def add_base_def
        zero_counts_def draw_quality_plot_def draw_content_plot_def dict_get_def
        content_share_def get_count_def counts_total_def)
  have plot: "res_content_plot ?res = Some ([0, 1], ?lines)" by simp
  from content_shares_sum [OF run plot, of 0] content_shares_sum [OF run plot, of 1] run
  show ?thesis by simp
qed

text \<open>
  Claim C4 as stated has a sum below 100 where a symbol outside A, T, G, C was observed.
  With the bases A and N at position 0 the share of A is 100.
\<close>

theorem content_shares_counterexample:
  "run_analysis [\<lparr>sequence = ''A'', quality = [30]\<rparr>, \<lparr>sequence = ''N'', quality = [30]\<rparr>]
     = Inr (Report \<lparr>res_total_sequences = 2, res_total_length = 2, res_mean_length = 1,
                     res_min_length = 1, res_max_length = 1,
                     res_quality_plot = Some ([0], [30]),
                     res_content_plot =
                       Some ([0], [(CHR ''A'', [100]), (CHR ''T'', [0]),
                                   (CHR ''G'', [0]), (CHR ''C'', [0])])\<rparr>)"
  by (simp add: run_analysis_def analysis_ingest_def analysis_step_def analysis_init_def
        Let_def py_truediv_def add_qualities_def add_bases_def enumerate_py_def add_base_def
        zero_counts_def draw_quality_plot_def draw_content_plot_def dict_get_def
        content_share_def get_count_def counts_total_def)

text \<open>
  Claim C1, as the code has it. Neither \<open>run_analysis\<close> nor the loop of the stats
  commands compares the length of a sequence with the length of its quality list: every
  record of a non-empty stream, whatever its two lengths, is counted, the pass runs to the
  end of the stream, and the figures are computed from all records (the quality plot from
  the quality lists, the content plot from the sequences, independently).
\<close>

theorem every_record_is_ingested:
  assumes "rs \<noteq> []"
  shows "(\<exists>res. run_analysis rs = Inr (Report res)
            \<and> res_total_sequences res = length rs
            \<and> res_total_length res = sum_list (seq_lens rs)
            \<and> res_quality_plot res = quality_plot_of rs
            \<and> res_content_plot res = content_plot_of rs)
       \<and> (\<exists>rep. stats rs d = Inr (Report rep)
            \<and> rep_total_sequences rep = length rs
            \<and> rep_total_length rep = sum_list (seq_lens rs))"
  by (simp add: run_analysis_nonempty [OF assms] stats_nonempty [OF assms])

theorem every_record_is_ingested_witness:
  "[\<lparr>sequence = ''AT'', quality = [30]\<rparr>] \<noteq> []
   \<and> (\<exists>res. run_analysis [\<lparr>sequence = ''AT'', quality = [30]\<rparr>] = Inr (Report res)
          \<and> res_total_sequences res = 1 \<and> res_total_length res = 2
          \<and> res_quality_plot res = Some ([0], [30])
          \<and> map_option fst (res_content_plot res) = Some [0, 1])
   \<and> (\<exists>rep. stats [\<lparr>sequence = ''AT'', quality = [30]\<rparr>] True = Inr (Report rep)
          \<and> rep_total_sequences rep = 1 \<and> rep_total_length rep = 2)"
  using every_record_is_ingested [of "[\<lparr>sequence = ''AT'', quality = [30]\<rparr>]" True]
  by (auto simp: seq_lens_def quality_plot_of_def content_plot_of_def max_len_def mean_at_def
      scores_at_def Let_def)

text \<open>
  Claim C1 as stated makes the pass fail at a record whose two lengths differ. A record
  with two bases and one quality score is analysed like any other.
\<close>

theorem mismatched_record_counterexample:
  "run_analysis [\<lparr>sequence = ''AT'', quality = [30]\<rparr>]
     = Inr (Report \<lparr>res_total_sequences = 1, res_total_length = 2, res_mean_length = 2,
                     res_min_length = 2, res_max_length = 2,
                     res_quality_plot = Some ([0], [30]),
                     res_content_plot =
                       Some ([0, 1], [(CHR ''A'', [100, 0]), (CHR ''T'', [0, 100]),
                                      (CHR ''G'', [0, 0]), (CHR ''C'', [0, 0])])\<rparr>)
   \<and> stats [\<lparr>sequence = ''AT'', quality = [30]\<rparr>] False
     = Inr (Report \<lparr>rep_total_sequences = 1, rep_total_length = 2, mean_length = 2,
                     min_length = 2, max_length = 2, gc_content = 0, length_table = None\<rparr>)"
  by (simp add: run_analysis_def analysis_ingest_def analysis_step_def analysis_init_def
        Let_def py_truediv_def add_qualities_def add_bases_def enumerate_py_def add_base_def
        zero_counts_def draw_quality_plot_def draw_content_plot_def dict_get_def
        content_share_def get_count_def counts_total_def
        stats_def stats_summary_def calculate_basic_stats_def basic_step_def basic_init_def upper_def upper_char_def)

section \<open>Properties of the length table\<close>

lemma first_seen_snoc:
  "first_seen (xs @ [x]) = (if x \<in> set xs then first_seen xs else first_seen xs @ [x])"
  by (simp add: first_seen_def)

lemma set_first_seen: "set (first_seen xs) = set xs"
  by (simp add: first_seen_def)

lemma distinct_first_seen: "distinct (first_seen xs)"
  by (simp add: first_seen_def)

lemma dict_modify_tabulated:
  "distinct ks \<Longrightarrow>
   dict_modify k d f (map (\<lambda>l. (l, g l)) ks) =
     (if k \<in> set ks then map (\<lambda>l. (l, if l = k then f (g l) else g l)) ks
      else map (\<lambda>l. (l, g l)) ks @ [(k, f d)])"
  by (induction ks) auto

lemma count_list_snoc: "count_list (xs @ [x]) l = count_list xs l + (if l = x then 1 else 0)"
  by (induction xs) auto

lemma length_counts_eq:
  "length_counts lens = map (\<lambda>l. (l, count_list lens l)) (first_seen lens)"
proof (induction lens rule: rev_induct)
  case Nil
  show ?case by (simp add: length_counts_def first_seen_def)
next
  case (snoc x xs)
  have step: "length_counts (xs @ [x]) = dict_modify x 0 (\<lambda>c. c + 1) (length_counts xs)"
    by (simp add: length_counts_def)
  show ?case
  proof (cases "x \<in> set xs")
    case True
    then show ?thesis
      by (simp add: step snoc.IH dict_modify_tabulated distinct_first_seen set_first_seen
          first_seen_snoc count_list_snoc)
  next
    case False
    then have "count_list xs x = 0" by (simp add: count_list_0_iff)
    with False show ?thesis
      by (auto simp: step snoc.IH dict_modify_tabulated distinct_first_seen set_first_seen
          first_seen_snoc count_list_snoc)
  qed
qed

lemma sorted_reverse_stable:
  "filter (\<lambda>y. key y = c) (sorted_reverse key xs) = filter (\<lambda>y. key y = c) xs"
proof -
  have "filter (\<lambda>y. key y = c) (sorted_reverse key xs)
          = rev (filter (\<lambda>y. key y = c) (sort_key key (rev xs)))"
    by (simp add: sorted_reverse_def rev_filter)
  also have "\<dots> = rev (filter (\<lambda>y. key y = c) (rev xs))"
    by (simp only: sort_key_stable)
  also have "\<dots> = filter (\<lambda>y. key y = c) xs"
    by (simp add: rev_filter)
  finally show ?thesis .
qed

lemma sorted_reverse_descending: "sorted (rev (map key (sorted_reverse key xs)))"
  by (simp add: sorted_reverse_def rev_map)

lemma set_sorted_reverse: "set (sorted_reverse key xs) = set xs"
  by (simp add: sorted_reverse_def)

lemma mset_sorted_reverse: "mset (sorted_reverse key xs) = mset xs"
  by (simp add: sorted_reverse_def)

lemma sorted_counts_tabulated:
  "sorted_reverse snd (length_counts lens)
     = map (\<lambda>l. (l, count_list lens l)) (ranked_lengths lens)"
proof -
  have "\<forall>e\<in>set (sorted_reverse snd (length_counts lens)). (fst e, count_list lens (fst e)) = e"
    by (auto simp: set_sorted_reverse length_counts_eq)
  then show ?thesis
    unfolding ranked_lengths_def map_map comp_def
    by (simp add: map_idI)
qed

lemma length_distribution_ranked:
  "length_distribution k n lens
     = map (\<lambda>l. (l, count_list lens l, of_nat (count_list lens l) / of_nat n * 100))
           (take k (ranked_lengths lens))"
  by (simp add: length_distribution_def sorted_counts_tabulated take_map comp_def)

lemma ranked_distinct: "distinct (ranked_lengths lens)"
proof -
  have "mset (ranked_lengths lens)
          = image_mset fst (mset (sorted_reverse snd (length_counts lens)))"
    by (simp add: ranked_lengths_def)
  also have "\<dots> = image_mset fst (mset (length_counts lens))"
    by (simp only: mset_sorted_reverse)
  also have "\<dots> = mset (first_seen lens)"
    by (simp add: length_counts_eq multiset.map_comp comp_def)
  finally have "mset (ranked_lengths lens) = mset (first_seen lens)" .
  then show ?thesis
    using distinct_first_seen [of lens] by (metis mset_eq_imp_distinct_iff)
qed

lemma ranked_set: "set (ranked_lengths lens) = set lens"
  by (simp add: ranked_lengths_def set_sorted_reverse length_counts_eq image_image set_first_seen)

lemma ranked_descending: "sorted (rev (map (count_list lens) (ranked_lengths lens)))"
proof -
  have "map (count_list lens) (ranked_lengths lens)
          = map snd (sorted_reverse snd (length_counts lens))"
    by (simp add: sorted_counts_tabulated comp_def)
  then show ?thesis by (simp only: sorted_reverse_descending)
qed

lemma fst_filter_tabulated:
  "map fst (filter (\<lambda>e. snd e = c) (map (\<lambda>l. (l, g l)) ks)) = filter (\<lambda>l. g l = c) ks"
  by (induction ks) auto

lemma ranked_ties:
  "filter (\<lambda>l. count_list lens l = c) (ranked_lengths lens)
     = filter (\<lambda>l. count_list lens l = c) (first_seen lens)"
proof -
  have "filter (\<lambda>l. count_list lens l = c) (ranked_lengths lens)
          = map fst (filter (\<lambda>e. snd e = c) (sorted_reverse snd (length_counts lens)))"
    by (simp only: sorted_counts_tabulated fst_filter_tabulated)
  also have "\<dots> = map fst (filter (\<lambda>e. snd e = c) (length_counts lens))"
    by (simp only: sorted_reverse_stable)
  also have "\<dots> = filter (\<lambda>l. count_list lens l = c) (first_seen lens)"
    by (simp only: length_counts_eq fst_filter_tabulated)
  finally show ?thesis .
qed

text \<open>
  Claim C3, as the code has it. The length table of the stats commands lists at most 10
  read lengths, each with its number of occurrences and its share of \<open>total_sequences\<close>.
  The lengths are distinct lengths of the stream, ranked by descending count; lengths with
  equal counts stand in the order in which they first occurred in the stream (the sort is
  stable and has the count as its only key), so the table is determined by the sequence of
  read lengths.
\<close>

theorem length_table_order:
  assumes "rs \<noteq> []"
  shows "\<exists>rep. stats rs True = Inr (Report rep)
     \<and> length_table rep =
         Some (map (\<lambda>l. (l, count_list (seq_lens rs) l,
                          of_nat (count_list (seq_lens rs) l) / of_nat (length rs) * 100))
                   (take 10 (ranked_lengths (seq_lens rs))))
     \<and> distinct (ranked_lengths (seq_lens rs))
     \<and> set (ranked_lengths (seq_lens rs)) = set (seq_lens rs)
     \<and> sorted (rev (map (count_list (seq_lens rs)) (ranked_lengths (seq_lens rs))))
     \<and> (\<forall>c. filter (\<lambda>l. count_list (seq_lens rs) l = c) (ranked_lengths (seq_lens rs))
             = filter (\<lambda>l. count_list (seq_lens rs) l = c) (first_seen (seq_lens rs)))"
  by (simp add: stats_nonempty [OF assms] length_distribution_ranked ranked_distinct
      ranked_set ranked_descending ranked_ties)

text \<open>
  Claim C3 as stated breaks ties by ascending length and makes the table a function of
  the multiset of lengths. The lengths 5 and 3, once each, are listed 5 first when 5 came
  first, and the same reads in the other order give the other table.
\<close>

theorem length_table_order_counterexample:
  "stats [\<lparr>sequence = ''AAAAA'', quality = [30, 30, 30, 30, 30]\<rparr>,
          \<lparr>sequence = ''AAA'', quality = [30, 30, 30]\<rparr>] True
     = Inr (Report \<lparr>rep_total_sequences = 2, rep_total_length = 8, mean_length = 4,
                     min_length = 3, max_length = 5, gc_content = 0,
                     length_table = Some [(5, 1, 50), (3, 1, 50)]\<rparr>)
   \<and> stats [\<lparr>sequence = ''AAA'', quality = [30, 30, 30]\<rparr>,
            \<lparr>sequence = ''AAAAA'', quality = [30, 30, 30, 30, 30]\<rparr>] True
     = Inr (Report \<lparr>rep_total_sequences = 2, rep_total_length = 8, mean_length = 4,
                     min_length = 3, max_length = 5, gc_content = 0,
                     length_table = Some [(3, 1, 50), (5, 1, 50)]\<rparr>)"
  by (simp add: stats_def stats_summary_def calculate_basic_stats_def basic_step_def basic_init_def Let_def
      py_truediv_def length_distribution_def length_counts_def sorted_reverse_def upper_def
      upper_char_def)

theorem length_table_order_witness:
  "[\<lparr>sequence = ''AAAAA'', quality = [30, 30, 30, 30, 30]\<rparr>,
    \<lparr>sequence = ''AAA'', quality = [30, 30, 30]\<rparr>,
    \<lparr>sequence = ''GGG'', quality = [30, 30, 30]\<rparr>, \<lparr>sequence = ''T'', quality = [30]\<rparr>] \<noteq> []
   \<and> (\<exists>rep. stats [\<lparr>sequence = ''AAAAA'', quality = [30, 30, 30, 30, 30]\<rparr>,
                    \<lparr>sequence = ''AAA'', quality = [30, 30, 30]\<rparr>,
                    \<lparr>sequence = ''GGG'', quality = [30, 30, 30]\<rparr>,
                    \<lparr>sequence = ''T'', quality = [30]\<rparr>] True = Inr (Report rep)
         \<and> length_table rep = Some [(3, 2, 50), (5, 1, 25), (1, 1, 25)])"
proof -
  let ?rs = "[\<lparr>sequence = ''AAAAA'', quality = [30, 30, 30, 30, 30]\<rparr>,
    \<lparr>sequence = ''AAA'', quality = [30, 30, 30]\<rparr>,
    \<lparr>sequence = ''GGG'', quality = [30, 30, 30]\<rparr>, \<lparr>sequence = ''T'', quality = [30]\<rparr>]"
  have ne: "?rs \<noteq> []" by simp
  have lens: "seq_lens ?rs = [5, 3, 3, 1]" by (simp add: seq_lens_def)
  have ranked: "ranked_lengths [5, 3, 3, 1] = [3, 5, 1]"
    by (simp add: ranked_lengths_def length_counts_def sorted_reverse_def)
  from length_table_order [OF ne] show ?thesis
    unfolding lens ranked by auto
qed

end
